theory Spec2Isabelle
  imports Main "HOL-Library.Word" "HOL-Library.Monad_Syntax"
begin

unbundle bit_operations_syntax

section \<open>Go strings, runes and the library functions used by listexamples.go\<close>

text \<open>
  A Go string is a sequence of bytes; \<^typ>\<open>string\<close> (a list of 8-bit characters) is
  that sequence. A rune is an \<open>int32\<close>. A run-time panic of the Go program (an index or
  a slice bound out of range) is the value \<open>None\<close>.
\<close>

type_synonym byte = "8 word"
type_synonym rune = "32 word"

definition byte_of :: "char \<Rightarrow> byte" where
  "byte_of c = of_char c"

text \<open>\<open>xs[i]\<close>: panics when \<open>i\<close> is out of range.\<close>

definition index :: "'a list \<Rightarrow> nat \<Rightarrow> 'a option" where
  "index xs i = (if i < length xs then Some (xs ! i) else None)"

text \<open>\<open>s[n:]\<close>: panics when \<open>n > len(s)\<close>.\<close>

definition slice_from :: "string \<Rightarrow> nat \<Rightarrow> string option" where
  "slice_from s n = (if n \<le> length s then Some (drop n s) else None)"

text \<open>\<open>strings.HasPrefix\<close>, \<open>strings.TrimPrefix\<close>, \<open>strings.HasSuffix\<close>, \<open>strings.TrimSuffix\<close>.\<close>

definition HasPrefix :: "string \<Rightarrow> string \<Rightarrow> bool" where
  "HasPrefix s p = (length p \<le> length s \<and> take (length p) s = p)"

definition TrimPrefix :: "string \<Rightarrow> string \<Rightarrow> string" where
  "TrimPrefix s p = (if HasPrefix s p then drop (length p) s else s)"

definition HasSuffix :: "string \<Rightarrow> string \<Rightarrow> bool" where
  "HasSuffix s suf = (length suf \<le> length s \<and> drop (length s - length suf) s = suf)"

definition TrimSuffix :: "string \<Rightarrow> string \<Rightarrow> string" where
  "TrimSuffix s suf = (if HasSuffix s suf then take (length s - length suf) s else s)"

text \<open>
  \<open>strings.Split(s, sep)\<close> for a separator of one byte, which is the only way the program
  calls it (\<open>sep = "_"\<close>): the pieces of \<open>s\<close> between the occurrences of the separator,
  one more piece than there are occurrences, so never an empty slice.
\<close>

fun Split :: "string \<Rightarrow> char \<Rightarrow> string list" where
  "Split [] sep = [[]]"
| "Split (c # s) sep =
     (if c = sep then [] # Split s sep
      else (case Split s sep of [] \<Rightarrow> [[c]] | seg # segs \<Rightarrow> (c # seg) # segs))"

subsection \<open>\<open>utf8.DecodeRuneInString\<close>\<close>

definition RuneError :: rune where
  "RuneError = 0xFFFD"

text \<open>The table \<open>first\<close> of package \<open>unicode/utf8\<close>: information about the first byte.\<close>

definition first :: "byte \<Rightarrow> byte" where
  "first b =
     (if b \<le> 0x7F then 0xF0
      else if b \<le> 0xC1 then 0xF1
      else if b \<le> 0xDF then 0x02
      else if b = 0xE0 then 0x13
      else if b \<le> 0xEC then 0x03
      else if b = 0xED then 0x23
      else if b \<le> 0xEF then 0x03
      else if b = 0xF0 then 0x34
      else if b \<le> 0xF3 then 0x04
      else if b = 0xF4 then 0x44
      else 0xF1)"

text \<open>The table \<open>acceptRanges\<close>: the bounds of the second byte.\<close>

definition acceptRanges :: "byte \<Rightarrow> byte \<times> byte" where
  "acceptRanges i =
     (if i = 1 then (0xA0, 0xBF)
      else if i = 2 then (0x80, 0x9F)
      else if i = 3 then (0x90, 0xBF)
      else if i = 4 then (0x80, 0x8F)
      else (0x80, 0xBF))"

definition DecodeRuneInString :: "string \<Rightarrow> rune \<times> nat" where
  "DecodeRuneInString s =
     (let n = length s in
      if n < 1 then (RuneError, 0)
      else
        let s0 = byte_of (s ! 0); x = first s0 in
        if x \<ge> 0xF0 then
          let mask = signed_drop_bit 31 (push_bit 31 (ucast x :: rune)) in
          ((ucast s0 AND NOT mask) OR (RuneError AND mask), 1)
        else
          let sz = unat (x AND 7); (lo, hi) = acceptRanges (drop_bit 4 x) in
          if n < sz then (RuneError, 1)
          else
            let s1 = byte_of (s ! 1) in
            if s1 < lo \<or> hi < s1 then (RuneError, 1)
            else if sz \<le> 2 then (push_bit 6 (ucast (s0 AND 0x1F)) OR ucast (s1 AND 0x3F), 2)
            else
              let s2 = byte_of (s ! 2) in
              if s2 < 0x80 \<or> 0xBF < s2 then (RuneError, 1)
              else if sz \<le> 3 then
                (push_bit 12 (ucast (s0 AND 0x0F)) OR push_bit 6 (ucast (s1 AND 0x3F))
                   OR ucast (s2 AND 0x3F), 3)
              else
                let s3 = byte_of (s ! 3) in
                if s3 < 0x80 \<or> 0xBF < s3 then (RuneError, 1)
                else
                  (push_bit 18 (ucast (s0 AND 0x07)) OR push_bit 12 (ucast (s1 AND 0x3F))
                     OR push_bit 6 (ucast (s2 AND 0x3F)) OR ucast (s3 AND 0x3F), 4))"

subsection \<open>\<open>unicode.IsLower\<close> and \<open>unicode.IsUpper\<close>\<close>

text \<open>
  Both functions answer for a rune up to \<open>MaxLatin1\<close> from the fixed table \<open>properties\<close>
  of package \<open>unicode\<close>, and for every other rune from the range tables \<open>unicode.Lower\<close>
  (general category Ll) and \<open>unicode.Upper\<close> (general category Lu). The range tables are
  data of the Unicode standard and not of this program: they are a parameter, a function
  that gives each rune its case. A code point has one general category, so no rune is in
  both tables.
\<close>

datatype letter_case = Lu | Ll | Uncased

type_synonym tables = "rune \<Rightarrow> letter_case"

definition MaxLatin1 :: rune where
  "MaxLatin1 = 0xFF"

definition properties :: "rune \<Rightarrow> letter_case" where
  "properties r =
     (if 0x41 \<le> r \<and> r \<le> 0x5A then Lu
      else if 0x61 \<le> r \<and> r \<le> 0x7A then Ll
      else if r = 0xB5 then Ll
      else if 0xC0 \<le> r \<and> r \<le> 0xD6 then Lu
      else if 0xD8 \<le> r \<and> r \<le> 0xDE then Lu
      else if 0xDF \<le> r \<and> r \<le> 0xF6 then Ll
      else if 0xF8 \<le> r \<and> r \<le> 0xFF then Ll
      else Uncased)"

definition IsLower :: "tables \<Rightarrow> rune \<Rightarrow> bool" where
  "IsLower T r = (if r \<le> MaxLatin1 then properties r = Ll else T r = Ll)"

definition IsUpper :: "tables \<Rightarrow> rune \<Rightarrow> bool" where
  "IsUpper T r = (if r \<le> MaxLatin1 then properties r = Lu else T r = Lu)"

section \<open>The classifier: \<open>isTest\<close>, \<open>isExample\<close>, \<open>isSubExample\<close>, \<open>isMethodExample\<close>\<close>

definition isTest :: "tables \<Rightarrow> string \<Rightarrow> string \<Rightarrow> bool option" where
  "isTest T name prefix =
     (if \<not> HasPrefix name prefix then Some False
      else if length name = length prefix then Some True
      else do {
        rest \<leftarrow> slice_from name (length prefix);
        let (rune, _) = DecodeRuneInString rest;
        Some (\<not> IsLower T rune)
      })"

definition isExample :: "tables \<Rightarrow> string \<Rightarrow> bool option" where
  "isExample T name = isTest T name ''Example''"

definition isSubExample :: "string \<Rightarrow> bool" where
  "isSubExample name = (let nSlice = Split name (CHR ''_'') in length nSlice > 1)"

definition isMethodExample :: "tables \<Rightarrow> string \<Rightarrow> bool option" where
  "isMethodExample T name = do {
     seg \<leftarrow> index (Split name (CHR ''_'')) 1;
     let (rune, _) = DecodeRuneInString seg;
     Some (\<not> IsLower T rune)
   }"

section \<open>The grouping engine: the body of \<open>main\<close>\<close>

text \<open>
  \<open>type funcs map[string][]string\<close> and \<open>type pkg map[string]funcs\<close>. Reading a key that
  is not in a Go map gives the zero value: the nil slice for \<open>funcs\<close>, the nil map for
  \<open>pkg\<close>; both have length 0.
\<close>

type_synonym funcs = "string \<rightharpoonup> string list"

type_synonym pkg = "string \<rightharpoonup> funcs"

definition at :: "funcs \<Rightarrow> string \<Rightarrow> string list" where
  "at m k = (case m k of None \<Rightarrow> [] | Some v \<Rightarrow> v)"

text \<open>
  What the program reads of an \<open>*ast.FuncDecl\<close>: \<open>x.Name.String()\<close> and the text of
  \<open>fset.Position(n.Pos())\<close>, which the parser's file set formats.
\<close>

record FuncDecl =
  fd_Name :: string
  fd_Pos :: string

text \<open>
  The case \<open>*ast.FuncDecl\<close> of the function given to \<open>ast.Inspect\<close> (lines 84 to 107),
  on the map \<open>funcList\<close> that it updates. The tests are made as often as the source
  makes them, in its order.
\<close>

definition visitFuncDecl :: "tables \<Rightarrow> funcs \<Rightarrow> FuncDecl \<Rightarrow> funcs option" where
  "visitFuncDecl T funcList x =
     (let name = fd_Name x;
          filePos = fd_Pos x @ [CHR '':'', CHR 0x09]
      in do {
        t \<leftarrow> isTest T name ''Test'';
        tb \<leftarrow> (if t then Some True else isTest T name ''Benchmark'');
        if \<not> tb then do {
          e \<leftarrow> isExample T name;
          let funcList1 = (if \<not> e then funcList(name \<mapsto> []) else funcList);
          e' \<leftarrow> isExample T name;
          if e' then
            if isSubExample name then do {
              m \<leftarrow> isMethodExample T name;
              funcList2 \<leftarrow>
                (if \<not> m then do {
                   key \<leftarrow> index (Split (TrimPrefix name ''Example'') (CHR ''_'')) 0;
                   Some (funcList1(key \<mapsto> at funcList1 key @ [filePos @ name]))
                 } else Some funcList1);
              m' \<leftarrow> isMethodExample T name;
              if m' then do {
                let key = TrimPrefix name ''Example'';
                k0 \<leftarrow> index (Split key (CHR ''_'')) 0;
                k1 \<leftarrow> index (Split name (CHR ''_'')) 1;
                let key = k0 @ ''.'' @ k1;
                Some (funcList2(key \<mapsto> at funcList2 key @ [filePos @ name]))
              } else Some funcList2
            } else do {
              let key = TrimPrefix name ''Example'';
              Some (funcList1(key \<mapsto> at funcList1 key @ [filePos @ name]))
            }
          else Some funcList1
        } else Some funcList
      })"

text \<open>
  The two loops over the files of a package and over the nodes of a file (lines 81 to 111)
  visit the function declarations one after the other.
\<close>

fun inspectDecls :: "tables \<Rightarrow> FuncDecl list \<Rightarrow> funcs \<Rightarrow> funcs option" where
  "inspectDecls T [] funcList = Some funcList"
| "inspectDecls T (x # xs) funcList = do {
     funcList' \<leftarrow> visitFuncDecl T funcList x;
     inspectDecls T xs funcList'
   }"

section \<open>The package aggregator\<close>

text \<open>
  What the program reads of an \<open>*ast.Package\<close>: its name, the result of
  \<open>ast.PackageExports\<close>, and the function declarations that the inspection visits.
\<close>

record Package =
  pkg_Name :: string
  pkg_exports :: bool
  pkg_decls :: "FuncDecl list"

text \<open>Lines 71 to 75: the name of the group of a package.\<close>

definition groupName :: "string \<Rightarrow> string" where
  "groupName pName =
     (if HasSuffix pName ''_test'' then TrimSuffix pName ''_test'' else pName)"

text \<open>\<open>pkgList[pkgName]\<close>, read: the nil map when the key is not there.\<close>

definition group :: "pkg \<Rightarrow> string \<Rightarrow> funcs" where
  "group pkgList pkgName = (case pkgList pkgName of None \<Rightarrow> Map.empty | Some m \<Rightarrow> m)"

text \<open>
  Lines 115 to 122. \<open>range funcList\<close> visits every key of the map once, in an order that
  Go leaves open: the order is the list \<open>ks\<close>. In the first branch the map
  \<open>pkgList[pkgName]\<close> has an element, so it is not nil and can be written.
\<close>

definition union_funcs :: "pkg \<Rightarrow> string \<Rightarrow> funcs \<Rightarrow> string list \<Rightarrow> pkg" where
  "union_funcs pkgList pkgName funcList ks =
     (if group pkgList pkgName \<noteq> Map.empty then
        pkgList(pkgName \<mapsto>
          fold (\<lambda>k m. m(k \<mapsto> at m k @ at funcList k)) ks (group pkgList pkgName))
      else pkgList(pkgName \<mapsto> funcList))"

text \<open>The body of the loop over the packages of a directory (lines 70 to 123).\<close>

definition visitPackage ::
  "tables \<Rightarrow> string \<Rightarrow> string \<Rightarrow> string \<Rightarrow> pkg \<Rightarrow> Package \<Rightarrow> string list \<Rightarrow> pkg option" where
  "visitPackage T gopath ps path pkgList p ks =
     (let pName = groupName (pkg_Name p);
          pPath = TrimPrefix path (gopath @ ps @ ''src'' @ ps);
          pkgName = pName @ '' in '' @ pPath
      in do {
        funcList \<leftarrow>
          (if pkg_exports p then inspectDecls T (pkg_decls p) Map.empty else Some Map.empty);
        Some (union_funcs pkgList pkgName funcList ks)
      })"

text \<open>
  An excerpt of the range tables, for the concrete inputs below: the basic Greek and
  Cyrillic letters.
\<close>

definition excerpt :: tables where
  "excerpt r =
     (if 0x391 \<le> r \<and> r \<le> 0x3A1 then Lu
      else if 0x3A3 \<le> r \<and> r \<le> 0x3A9 then Lu
      else if 0x3B1 \<le> r \<and> r \<le> 0x3C9 then Ll
      else if 0x410 \<le> r \<and> r \<le> 0x42F then Lu
      else if 0x430 \<le> r \<and> r \<le> 0x44F then Ll
      else Uncased)"

text \<open>The test of line 87: the declaration is a test or a benchmark.\<close>

definition isTestOrBenchmark :: "tables \<Rightarrow> string \<Rightarrow> bool" where
  "isTestOrBenchmark T name \<longleftrightarrow>
     isTest T name ''Test'' = Some True \<or> isTest T name ''Benchmark'' = Some True"

section \<open>Facts about the library functions\<close>


lemma HasPrefix_iff: "HasPrefix s p \<longleftrightarrow> (\<exists>rest. s = p @ rest)"
proof
  assume "HasPrefix s p"
  then have "s = p @ drop (length p) s"
    by (metis HasPrefix_def append_take_drop_id)
  then show "\<exists>rest. s = p @ rest" ..
next
  assume "\<exists>rest. s = p @ rest"
  then show "HasPrefix s p" by (auto simp: HasPrefix_def)
qed

lemma HasPrefix_append [simp]: "HasPrefix (p @ rest) p"
  by (simp add: HasPrefix_def)

lemma TrimPrefix_append [simp]: "TrimPrefix (p @ rest) p = rest"
  by (simp add: TrimPrefix_def)

lemma isTest_value:
  "isTest T name prefix =
     Some (HasPrefix name prefix \<and>
           (length name = length prefix \<or>
            \<not> IsLower T (fst (DecodeRuneInString (drop (length prefix) name)))))"
  by (auto simp: isTest_def slice_from_def HasPrefix_def split: prod.splits)

lemma isTest_append:
  "isTest T (prefix @ rest) prefix =
     Some (rest = [] \<or> \<not> IsLower T (fst (DecodeRuneInString rest)))"
  by (simp add: isTest_value)

lemma Split_nonempty [simp]: "Split s sep \<noteq> []"
  by (induction s) (auto split: list.splits)

lemma index_Split_0: "index (Split s sep) 0 = Some (hd (Split s sep))"
  by (simp add: index_def hd_conv_nth)

lemma hd_Split_append:
  "sep \<notin> set p \<Longrightarrow> hd (Split (p @ s) sep) = p @ hd (Split s sep)"
  by (induction p) (auto split: list.splits)

lemma length_Split: "length (Split s sep) = Suc (length (filter (\<lambda>c. c = sep) s))"
  by (induction s) (auto split: list.splits)

lemma isSubExample_iff: "isSubExample name \<longleftrightarrow> CHR ''_'' \<in> set name"
  by (auto simp: isSubExample_def length_Split filter_empty_conv Let_def)

lemma isMethodExample_total:
  "isSubExample name \<Longrightarrow>
   isMethodExample T name =
     Some (\<not> IsLower T (fst (DecodeRuneInString (Split name (CHR ''_'') ! 1))))"
  by (simp add: isMethodExample_def isSubExample_def index_def split: prod.splits)

lemma isMethodExample_panics:
  "\<not> isSubExample name \<Longrightarrow> isMethodExample T name = None"
  by (simp add: isMethodExample_def isSubExample_def index_def)

lemma Example_not_Test:
  "HasPrefix name ''Example'' \<Longrightarrow> \<not> HasPrefix name ''Test''"
  by (auto simp: HasPrefix_iff)

lemma Example_not_Benchmark:
  "HasPrefix name ''Example'' \<Longrightarrow> \<not> HasPrefix name ''Benchmark''"
  by (auto simp: HasPrefix_iff)

lemma isExample_HasPrefix: "isExample T name = Some True \<Longrightarrow> HasPrefix name ''Example''"
  by (simp add: isExample_def isTest_value)

lemma isExample_not_test:
  assumes "isExample T name = Some True"
  shows "isTest T name ''Test'' = Some False" and "isTest T name ''Benchmark'' = Some False"
  using isExample_HasPrefix [OF assms]
  by (simp_all add: isTest_def Example_not_Test Example_not_Benchmark)

lemma isExample_cases: "isExample T name = Some True \<or> isExample T name = Some False"
  by (simp add: isExample_def isTest_value)

lemma Split_TrimPrefix_Example:
  assumes "HasPrefix name ''Example''"
  shows "hd (Split (TrimPrefix name ''Example'') (CHR ''_'')) =
         TrimPrefix (hd (Split name (CHR ''_''))) ''Example''"
proof -
  from assms obtain rest where n: "name = ''Example'' @ rest"
    by (auto simp: HasPrefix_iff)
  have "hd (Split name (CHR ''_'')) = ''Example'' @ hd (Split rest (CHR ''_''))"
    unfolding n by (rule hd_Split_append) simp
  then show ?thesis
    unfolding n by (simp only: TrimPrefix_append)
qed

lemmas decode_defs = DecodeRuneInString_def byte_of_def first_def acceptRanges_def RuneError_def

lemmas case_defs = IsLower_def IsUpper_def MaxLatin1_def properties_def excerpt_def

lemma IsUpper_not_IsLower: "IsUpper T r \<Longrightarrow> \<not> IsLower T r"
  by (auto simp: IsUpper_def IsLower_def split: if_splits)

lemma isTest_cases: "isTest T name prefix = Some True \<or> isTest T name prefix = Some False"
  by (simp add: isTest_value)

lemma isExample_Example_append:
  "isExample T (''Example'' @ rest) =
     Some (rest = [] \<or> \<not> IsLower T (fst (DecodeRuneInString rest)))"
  unfolding isExample_def by (rule isTest_append)

section \<open>The branches of \<open>visitFuncDecl\<close>\<close>

lemma visit_test:
  assumes "isTest T (fd_Name x) ''Test'' = Some True \<or> isTest T (fd_Name x) ''Benchmark'' = Some True"
  shows "visitFuncDecl T funcList x = Some funcList"
proof (cases "isTest T (fd_Name x) ''Test'' = Some True")
  case True
  then show ?thesis by (simp add: visitFuncDecl_def)
next
  case False
  then have "isTest T (fd_Name x) ''Test'' = Some False"
    by (simp add: isTest_value)
  with assms show ?thesis by (simp add: visitFuncDecl_def)
qed

lemma visit_plain:
  assumes "isTest T (fd_Name x) ''Test'' = Some False"
    and "isTest T (fd_Name x) ''Benchmark'' = Some False"
    and "isExample T (fd_Name x) = Some False"
  shows "visitFuncDecl T funcList x = Some (funcList(fd_Name x \<mapsto> []))"
  using assms by (simp add: visitFuncDecl_def)

lemma visit_function_example:
  assumes "isExample T (fd_Name x) = Some True" and "\<not> isSubExample (fd_Name x)"
  shows "visitFuncDecl T funcList x =
    Some (funcList(TrimPrefix (fd_Name x) ''Example'' \<mapsto>
      at funcList (TrimPrefix (fd_Name x) ''Example'') @ [fd_Pos x @ [CHR '':'', CHR 0x09] @ fd_Name x]))"
  using assms isExample_not_test [OF assms(1)] by (simp add: visitFuncDecl_def Let_def)

lemma visit_sub_example:
  assumes "isExample T (fd_Name x) = Some True" and "isSubExample (fd_Name x)"
    and "isMethodExample T (fd_Name x) = Some False"
  shows "visitFuncDecl T funcList x =
    Some (funcList(hd (Split (TrimPrefix (fd_Name x) ''Example'') (CHR ''_'')) \<mapsto>
      at funcList (hd (Split (TrimPrefix (fd_Name x) ''Example'') (CHR ''_''))) @ [fd_Pos x @ [CHR '':'', CHR 0x09] @ fd_Name x]))"
  using assms isExample_not_test [OF assms(1)] by (simp add: visitFuncDecl_def index_Split_0 Let_def)

lemma visit_method_example:
  assumes "isExample T (fd_Name x) = Some True" and "isSubExample (fd_Name x)"
    and "isMethodExample T (fd_Name x) = Some True"
  shows "visitFuncDecl T funcList x =
    Some (funcList(hd (Split (TrimPrefix (fd_Name x) ''Example'') (CHR ''_'')) @ ''.'' @ Split (fd_Name x) (CHR ''_'') ! 1 \<mapsto>
      at funcList (hd (Split (TrimPrefix (fd_Name x) ''Example'') (CHR ''_'')) @ ''.'' @ Split (fd_Name x) (CHR ''_'') ! 1) @ [fd_Pos x @ [CHR '':'', CHR 0x09] @ fd_Name x]))"
proof -
  have "index (Split (fd_Name x) (CHR ''_'')) 1 = Some (Split (fd_Name x) (CHR ''_'') ! 1)"
    using assms(2) by (simp add: index_def isSubExample_def)
  then show ?thesis
  using assms isExample_not_test [OF assms(1)] by (simp add: visitFuncDecl_def index_Split_0 Let_def)
qed

lemma visit_Testify:
  "visitFuncDecl T funcList \<lparr>fd_Name = ''Testify'', fd_Pos = pos\<rparr> =
     Some (funcList(''Testify'' \<mapsto> []))"
proof -
  have "isTest T ''Testify'' ''Test'' = Some False"
    using isTest_append [of T "''Test''" "''ify''"] by (simp add: decode_defs case_defs)
  moreover have "isTest T ''Testify'' ''Benchmark'' = Some False"
    by (simp add: isTest_def HasPrefix_def)
  moreover have "isExample T ''Testify'' = Some False"
    by (simp add: isExample_def isTest_def HasPrefix_def)
  ultimately show ?thesis
    using visit_plain [of T "\<lparr>fd_Name = ''Testify'', fd_Pos = pos\<rparr>" funcList] by simp
qed

lemma owner_of_first_segment:
  assumes "isExample T name = Some True"
  shows "hd (Split (TrimPrefix name ''Example'') (CHR ''_'')) =
         TrimPrefix (Split name (CHR ''_'') ! 0) ''Example''"
  using Split_TrimPrefix_Example [OF isExample_HasPrefix [OF assms]]
  by (simp add: hd_conv_nth)

lemma function_example:
  assumes "isExample T name = Some True" and "CHR ''_'' \<notin> set name"
  shows "visitFuncDecl T funcList \<lparr>fd_Name = name, fd_Pos = pos\<rparr> =
           Some (funcList(TrimPrefix name ''Example'' \<mapsto>
                   at funcList (TrimPrefix name ''Example'') @ [pos @ [CHR '':'', CHR 0x09] @ name]))"
proof -
  have "\<not> isSubExample name"
    using assms(2) by (simp add: isSubExample_iff)
  then show ?thesis
    using visit_function_example [of T "\<lparr>fd_Name = name, fd_Pos = pos\<rparr>" funcList] assms(1)
    by simp
qed

lemma method_example:
  assumes "isExample T name = Some True" and "isSubExample name"
    and "\<not> IsLower T (fst (DecodeRuneInString (Split name (CHR ''_'') ! 1)))"
  shows "visitFuncDecl T funcList \<lparr>fd_Name = name, fd_Pos = pos\<rparr> =
           Some (funcList(TrimPrefix (Split name (CHR ''_'') ! 0) ''Example'' @ ''.''
                            @ Split name (CHR ''_'') ! 1 \<mapsto>
                   at funcList (TrimPrefix (Split name (CHR ''_'') ! 0) ''Example'' @ ''.''
                            @ Split name (CHR ''_'') ! 1)
                     @ [pos @ [CHR '':'', CHR 0x09] @ name]))"
proof -
  have m: "isMethodExample T name = Some True"
    using assms(2,3) by (simp add: isMethodExample_total)
  show ?thesis
    using m visit_method_example [of T "\<lparr>fd_Name = name, fd_Pos = pos\<rparr>" funcList] assms(1,2)
    by (simp add: owner_of_first_segment [OF assms(1)])
qed

lemma sub_example:
  assumes "isExample T name = Some True" and "isSubExample name"
    and "IsLower T (fst (DecodeRuneInString (Split name (CHR ''_'') ! 1)))"
  shows "visitFuncDecl T funcList \<lparr>fd_Name = name, fd_Pos = pos\<rparr> =
           Some (funcList(TrimPrefix (Split name (CHR ''_'') ! 0) ''Example'' \<mapsto>
                   at funcList (TrimPrefix (Split name (CHR ''_'') ! 0) ''Example'')
                     @ [pos @ [CHR '':'', CHR 0x09] @ name]))"
proof -
  have m: "isMethodExample T name = Some False"
    using assms(2,3) by (simp add: isMethodExample_total)
  show ?thesis
    using m visit_sub_example [of T "\<lparr>fd_Name = name, fd_Pos = pos\<rparr>" funcList] assms(1,2)
    by (simp add: owner_of_first_segment [OF assms(1)])
qed

lemma inspectDecls_skip_tests:
  "inspectDecls T (filter (\<lambda>x. \<not> isTestOrBenchmark T (fd_Name x)) xs) funcList =
   inspectDecls T xs funcList"
proof (induction xs arbitrary: funcList)
  case Nil
  show ?case by simp
next
  case (Cons x xs)
  show ?case
  proof (cases "isTestOrBenchmark T (fd_Name x)")
    case True
    then have "visitFuncDecl T funcList x = Some funcList"
      unfolding isTestOrBenchmark_def by (rule visit_test)
    with True Cons.IH show ?thesis by simp
  next
    case False
    have "inspectDecls T (filter (\<lambda>x. \<not> isTestOrBenchmark T (fd_Name x)) xs) =
          inspectDecls T xs"
      by (rule ext) (rule Cons.IH)
    with False show ?thesis by simp
  qed
qed

section \<open>Every declaration is processed, and what it stores\<close>

lemma visit_shape:
  "visitFuncDecl T funcList x = Some funcList \<or>
   visitFuncDecl T funcList x = Some (funcList(fd_Name x \<mapsto> [])) \<or>
   (isExample T (fd_Name x) = Some True \<and>
    (\<exists>key. visitFuncDecl T funcList x =
       Some (funcList(key \<mapsto> at funcList key @ [fd_Pos x @ [CHR '':'', CHR 0x09] @ fd_Name x]))))"
proof (cases "isTestOrBenchmark T (fd_Name x)")
  case True
  then show ?thesis
    unfolding isTestOrBenchmark_def by (simp add: visit_test)
next
  case False
  then have t: "isTest T (fd_Name x) ''Test'' = Some False"
    and b: "isTest T (fd_Name x) ''Benchmark'' = Some False"
    using isTest_cases [of T "fd_Name x" "''Test''"] isTest_cases [of T "fd_Name x" "''Benchmark''"]
    by (auto simp: isTestOrBenchmark_def)
  show ?thesis
  proof (cases "isExample T (fd_Name x) = Some True")
    case no: False
    then have "isExample T (fd_Name x) = Some False"
      using isExample_cases [of T "fd_Name x"] by simp
    with t b show ?thesis by (simp add: visit_plain)
  next
    case e: True
    show ?thesis
    proof (cases "isSubExample (fd_Name x)")
      case False
      with e show ?thesis
        using visit_function_example [of T x funcList] by blast
    next
      case s: True
      show ?thesis
      proof (cases "IsLower T (fst (DecodeRuneInString (Split (fd_Name x) (CHR ''_'') ! 1)))")
        case True
        with s have "isMethodExample T (fd_Name x) = Some False"
          by (simp add: isMethodExample_total)
        with e s show ?thesis
          using visit_sub_example [of T x funcList] by blast
      next
        case False
        with s have "isMethodExample T (fd_Name x) = Some True"
          by (simp add: isMethodExample_total)
        with e s show ?thesis
          using visit_method_example [of T x funcList] by blast
      qed
    qed
  qed
qed

lemma visit_total: "\<exists>funcList'. visitFuncDecl T funcList x = Some funcList'"
  using visit_shape [of T funcList x] by blast

lemma inspectDecls_total: "\<exists>funcList'. inspectDecls T xs funcList = Some funcList'"
proof (induction xs arbitrary: funcList)
  case Nil
  show ?case by simp
next
  case (Cons x xs)
  obtain funcList1 where "visitFuncDecl T funcList x = Some funcList1"
    using visit_total by blast
  with Cons.IH [of funcList1] show ?case by simp
qed

lemma visit_entries:
  assumes "visitFuncDecl T funcList x = Some funcList'" and "e \<in> set (at funcList' k)"
  shows "e \<in> set (at funcList k) \<or>
         (isExample T (fd_Name x) = Some True \<and> e = fd_Pos x @ [CHR '':'', CHR 0x09] @ fd_Name x)"
  using visit_shape [of T funcList x] assms
  by (auto simp: at_def split: if_splits)

lemma inspectDecls_entries:
  assumes "inspectDecls T xs funcList = Some funcList'" and "e \<in> set (at funcList' k)"
  shows "e \<in> set (at funcList k) \<or>
         (\<exists>x\<in>set xs. isExample T (fd_Name x) = Some True \<and>
                      e = fd_Pos x @ [CHR '':'', CHR 0x09] @ fd_Name x)"
  using assms
proof (induction xs arbitrary: funcList)
  case Nil
  then show ?case by simp
next
  case (Cons x xs)
  from Cons.prems(1) obtain funcList1 where
    v: "visitFuncDecl T funcList x = Some funcList1" and
    r: "inspectDecls T xs funcList1 = Some funcList'"
    by (auto split: bind_splits)
  from Cons.IH [OF r Cons.prems(2)] show ?case
  proof
    assume "e \<in> set (at funcList1 k)"
    with v have "e \<in> set (at funcList k) \<or>
         (isExample T (fd_Name x) = Some True \<and> e = fd_Pos x @ [CHR '':'', CHR 0x09] @ fd_Name x)"
      by (rule visit_entries)
    then show ?thesis by auto
  next
    assume "\<exists>x\<in>set xs. isExample T (fd_Name x) = Some True \<and>
                      e = fd_Pos x @ [CHR '':'', CHR 0x09] @ fd_Name x"
    then show ?thesis by auto
  qed
qed

lemma demo_package:
  "inspectDecls excerpt
     [\<lparr>fd_Name = ''Foo'', fd_Pos = ''a.go:1:1''\<rparr>,
      \<lparr>fd_Name = ''ExampleFoo'', fd_Pos = ''a_test.go:2:1''\<rparr>,
      \<lparr>fd_Name = ''TestFoo'', fd_Pos = ''a_test.go:9:1''\<rparr>]
     Map.empty = Some [''Foo'' \<mapsto> [''a_test.go:2:1:'' @ [CHR 0x09] @ ''ExampleFoo'']]"
proof -
  have e: "isExample excerpt ''ExampleFoo'' = Some True"
    using isExample_Example_append [of excerpt "''Foo''"] by (simp add: decode_defs case_defs)
  have ex: "visitFuncDecl excerpt funcList \<lparr>fd_Name = ''ExampleFoo'', fd_Pos = ''a_test.go:2:1''\<rparr> =
      Some (funcList(''Foo'' \<mapsto> at funcList ''Foo'' @ [''a_test.go:2:1:'' @ [CHR 0x09] @ ''ExampleFoo'']))"
    for funcList
    using function_example [OF e, of funcList "''a_test.go:2:1''"]
    by (simp add: TrimPrefix_def HasPrefix_def)
  have pl: "visitFuncDecl excerpt funcList \<lparr>fd_Name = ''Foo'', fd_Pos = ''a.go:1:1''\<rparr> =
      Some (funcList(''Foo'' \<mapsto> []))" for funcList
    using visit_plain [of excerpt "\<lparr>fd_Name = ''Foo'', fd_Pos = ''a.go:1:1''\<rparr>" funcList]
    by (simp add: isExample_def isTest_def HasPrefix_def)
  have t: "isTest excerpt ''TestFoo'' ''Test'' = Some True"
    using isTest_append [of excerpt "''Test''" "''Foo''"] by (simp add: decode_defs case_defs)
  have te: "visitFuncDecl excerpt funcList \<lparr>fd_Name = ''TestFoo'', fd_Pos = ''a_test.go:9:1''\<rparr> =
      Some funcList" for funcList
    using visit_test [of excerpt "\<lparr>fd_Name = ''TestFoo'', fd_Pos = ''a_test.go:9:1''\<rparr>" funcList] t
    by simp
  show ?thesis
    by (simp add: ex pl te at_def)
qed

lemma isExample_not_TestOrBenchmark:
  "isExample T name = Some True \<Longrightarrow> \<not> isTestOrBenchmark T name"
  using isExample_not_test [of T name] by (simp add: isTestOrBenchmark_def)

lemma visit_shape_key:
  "(\<forall>funcList. visitFuncDecl T funcList x = Some funcList) \<or>
   (\<not> isTestOrBenchmark T (fd_Name x) \<and>
    (\<forall>funcList. visitFuncDecl T funcList x = Some (funcList(fd_Name x \<mapsto> [])))) \<or>
   (isExample T (fd_Name x) = Some True \<and>
    (\<exists>key. \<forall>funcList. visitFuncDecl T funcList x =
       Some (funcList(key \<mapsto> at funcList key @ [fd_Pos x @ [CHR '':'', CHR 0x09] @ fd_Name x]))))"
proof (cases "isTestOrBenchmark T (fd_Name x)")
  case True
  then show ?thesis
    unfolding isTestOrBenchmark_def by (simp add: visit_test)
next
  case False
  then have t: "isTest T (fd_Name x) ''Test'' = Some False"
    and b: "isTest T (fd_Name x) ''Benchmark'' = Some False"
    using isTest_cases [of T "fd_Name x" "''Test''"] isTest_cases [of T "fd_Name x" "''Benchmark''"]
    by (auto simp: isTestOrBenchmark_def)
  show ?thesis
  proof (cases "isExample T (fd_Name x) = Some True")
    case no: False
    then have "isExample T (fd_Name x) = Some False"
      using isExample_cases [of T "fd_Name x"] by simp
    with t b False show ?thesis by (simp add: visit_plain)
  next
    case e: True
    show ?thesis
    proof (cases "isSubExample (fd_Name x)")
      case False
      with e show ?thesis
        using visit_function_example [of T x] by blast
    next
      case s: True
      show ?thesis
      proof (cases "IsLower T (fst (DecodeRuneInString (Split (fd_Name x) (CHR ''_'') ! 1)))")
        case True
        with s have "isMethodExample T (fd_Name x) = Some False"
          by (simp add: isMethodExample_total)
        with e s show ?thesis
          using visit_sub_example [of T x] by blast
      next
        case False
        with s have "isMethodExample T (fd_Name x) = Some True"
          by (simp add: isMethodExample_total)
        with e s show ?thesis
          using visit_method_example [of T x] by blast
      qed
    qed
  qed
qed

lemma visit_keys:
  assumes "visitFuncDecl T funcList x = Some funcList'" and "funcList' k \<noteq> None"
  shows "funcList k \<noteq> None \<or>
         (\<not> isTestOrBenchmark T (fd_Name x) \<and> k = fd_Name x) \<or>
         (isExample T (fd_Name x) = Some True \<and>
          (\<exists>m. visitFuncDecl T Map.empty x = Some m \<and> m k \<noteq> None))"
proof -
  consider
    (skip) "\<forall>funcList. visitFuncDecl T funcList x = Some funcList"
  | (plain) "\<not> isTestOrBenchmark T (fd_Name x)"
      "\<forall>funcList. visitFuncDecl T funcList x = Some (funcList(fd_Name x \<mapsto> []))"
  | (example) key where "isExample T (fd_Name x) = Some True"
      "\<forall>funcList. visitFuncDecl T funcList x =
         Some (funcList(key \<mapsto> at funcList key @ [fd_Pos x @ [CHR '':'', CHR 0x09] @ fd_Name x]))"
    using visit_shape_key [of T x] by blast
  then show ?thesis
  proof cases
    case skip
    with assms show ?thesis by simp
  next
    case plain
    with assms show ?thesis by (auto split: if_splits)
  next
    case example
    from example(2) have
      "visitFuncDecl T Map.empty x =
         Some (Map.empty(key \<mapsto> at Map.empty key @ [fd_Pos x @ [CHR '':'', CHR 0x09] @ fd_Name x]))"
      by blast
    moreover have "k = key \<or> funcList k \<noteq> None"
      using assms example(2) by (auto split: if_splits)
    ultimately show ?thesis
      using example(1) by auto
  qed
qed

lemma inspectDecls_keys:
  assumes "inspectDecls T xs funcList = Some funcList'" and "funcList' k \<noteq> None"
  shows "funcList k \<noteq> None \<or>
         (\<exists>x\<in>set xs. \<not> isTestOrBenchmark T (fd_Name x) \<and> k = fd_Name x) \<or>
         (\<exists>x\<in>set xs. isExample T (fd_Name x) = Some True \<and>
            (\<exists>m. visitFuncDecl T Map.empty x = Some m \<and> m k \<noteq> None))"
  using assms
proof (induction xs arbitrary: funcList)
  case Nil
  then show ?case by simp
next
  case (Cons x xs)
  from Cons.prems(1) obtain funcList1 where
    v: "visitFuncDecl T funcList x = Some funcList1" and
    r: "inspectDecls T xs funcList1 = Some funcList'"
    by (auto split: bind_splits)
  from Cons.IH [OF r Cons.prems(2)] consider
    (old) "funcList1 k \<noteq> None"
  | (plain) "\<exists>x\<in>set xs. \<not> isTestOrBenchmark T (fd_Name x) \<and> k = fd_Name x"
  | (example) "\<exists>x\<in>set xs. isExample T (fd_Name x) = Some True \<and>
            (\<exists>m. visitFuncDecl T Map.empty x = Some m \<and> m k \<noteq> None)"
    by blast
  then show ?case
  proof cases
    case old
    with v have "funcList k \<noteq> None \<or>
         (\<not> isTestOrBenchmark T (fd_Name x) \<and> k = fd_Name x) \<or>
         (isExample T (fd_Name x) = Some True \<and>
          (\<exists>m. visitFuncDecl T Map.empty x = Some m \<and> m k \<noteq> None))"
      by (rule visit_keys)
    then show ?thesis by auto
  next
    case plain
    then show ?thesis by auto
  next
    case example
    then show ?thesis by auto
  qed
qed

lemma test_package:
  "inspectDecls excerpt
     [\<lparr>fd_Name = ''TestFoo'', fd_Pos = ''a_test.go:3:1''\<rparr>,
      \<lparr>fd_Name = ''ExampleTestFoo'', fd_Pos = ''a_test.go:7:1''\<rparr>]
     Map.empty = Some [''TestFoo'' \<mapsto> [''a_test.go:7:1:'' @ [CHR 0x09] @ ''ExampleTestFoo'']]"
proof -
  have t: "isTest excerpt ''TestFoo'' ''Test'' = Some True"
    using isTest_append [of excerpt "''Test''" "''Foo''"] by (simp add: decode_defs case_defs)
  have te: "visitFuncDecl excerpt funcList \<lparr>fd_Name = ''TestFoo'', fd_Pos = ''a_test.go:3:1''\<rparr> =
      Some funcList" for funcList
    using visit_test [of excerpt "\<lparr>fd_Name = ''TestFoo'', fd_Pos = ''a_test.go:3:1''\<rparr>" funcList] t
    by simp
  have e: "isExample excerpt ''ExampleTestFoo'' = Some True"
    using isExample_Example_append [of excerpt "''TestFoo''"] by (simp add: decode_defs case_defs)
  have ex: "visitFuncDecl excerpt funcList
      \<lparr>fd_Name = ''ExampleTestFoo'', fd_Pos = ''a_test.go:7:1''\<rparr> =
      Some (funcList(''TestFoo'' \<mapsto>
        at funcList ''TestFoo'' @ [''a_test.go:7:1:'' @ [CHR 0x09] @ ''ExampleTestFoo'']))"
    for funcList
    using function_example [OF e, of funcList "''a_test.go:7:1''"]
    by (simp add: TrimPrefix_def HasPrefix_def)
  show ?thesis
    by (simp add: te ex at_def)
qed

section \<open>Facts about the package aggregator\<close>

lemma fold_union:
  "distinct ks \<Longrightarrow>
   fold (\<lambda>k m. m(k \<mapsto> at m k @ at N k)) ks old =
     (\<lambda>k. if k \<in> set ks then Some (at old k @ at N k) else old k)"
proof (induction ks arbitrary: old)
  case Nil
  show ?case by simp
next
  case (Cons a ks)
  then have "distinct ks" and a: "a \<notin> set ks" by simp_all
  have "fold (\<lambda>k m. m(k \<mapsto> at m k @ at N k)) (a # ks) old =
        fold (\<lambda>k m. m(k \<mapsto> at m k @ at N k)) ks (old(a \<mapsto> at old a @ at N a))"
    by simp
  also have "\<dots> = (\<lambda>k. if k \<in> set ks then Some (at (old(a \<mapsto> at old a @ at N a)) k @ at N k)
                        else (old(a \<mapsto> at old a @ at N a)) k)"
    using \<open>distinct ks\<close> by (rule Cons.IH)
  also have "\<dots> = (\<lambda>k. if k \<in> set (a # ks) then Some (at old k @ at N k) else old k)"
    using a by (auto simp: fun_eq_iff at_def)
  finally show ?case .
qed

lemma union_funcs_self:
  assumes "group pkgList pkgName = M" and "set ks = dom M" and "distinct ks"
  shows "group (union_funcs pkgList pkgName M ks) pkgName = (\<lambda>k. map_option (\<lambda>v. v @ v) (M k))"
proof (cases "M = Map.empty")
  case True
  with assms(1) show ?thesis by (simp add: union_funcs_def group_def)
next
  case False
  have "fold (\<lambda>k m. m(k \<mapsto> at m k @ at M k)) ks M =
        (\<lambda>k. if k \<in> set ks then Some (at M k @ at M k) else M k)"
    using assms(3) by (rule fold_union)
  also have "\<dots> = (\<lambda>k. map_option (\<lambda>v. v @ v) (M k))"
    using assms(2) by (auto simp: fun_eq_iff at_def split: option.splits)
  finally show ?thesis
    using False assms(1) by (simp add: union_funcs_def group_def)
qed

lemma HasSuffix_iff: "HasSuffix s suf \<longleftrightarrow> (\<exists>front. s = front @ suf)"
proof
  assume "HasSuffix s suf"
  then have "s = take (length s - length suf) s @ suf"
    by (metis HasSuffix_def append_take_drop_id)
  then show "\<exists>front. s = front @ suf" ..
next
  assume "\<exists>front. s = front @ suf"
  then show "HasSuffix s suf" by (auto simp: HasSuffix_def)
qed

lemma HasSuffix_append [simp]: "HasSuffix (front @ suf) suf"
  by (simp add: HasSuffix_def)

lemma TrimSuffix_append [simp]: "TrimSuffix (front @ suf) suf = front"
  by (simp add: TrimSuffix_def)

lemma groupName_test: "groupName (X @ ''_test'') = X"
  unfolding groupName_def by (simp only: HasSuffix_append TrimSuffix_append if_True)

lemma groupName_other: "\<not> HasSuffix pName ''_test'' \<Longrightarrow> groupName pName = pName"
  by (simp add: groupName_def)

lemma groupName_no_suffix:
  assumes "\<not> HasSuffix pName ''_test_test''"
  shows "\<not> HasSuffix (groupName pName) ''_test''"
proof (cases "HasSuffix pName ''_test''")
  case False
  then show ?thesis by (simp add: groupName_other)
next
  case True
  then obtain X where p: "pName = X @ ''_test''"
    by (auto simp: HasSuffix_iff)
  have "\<not> HasSuffix X ''_test''"
  proof
    assume "HasSuffix X ''_test''"
    then obtain Y where "X = Y @ ''_test''"
      by (auto simp: HasSuffix_iff)
    with p have "pName = Y @ ''_test_test''" by simp
    then have "HasSuffix pName ''_test_test''"
      unfolding HasSuffix_iff by blast
    with assms show False by contradiction
  qed
  then show ?thesis
    unfolding p by (simp add: groupName_test)
qed

lemma dom_union_funcs: "dom (union_funcs pkgList pkgName funcList ks) = insert pkgName (dom pkgList)"
  by (simp add: union_funcs_def)

lemma visitPackage_dom:
  assumes "visitPackage T gopath ps path pkgList p ks = Some pkgList'"
  shows "dom pkgList' =
    insert (groupName (pkg_Name p) @ '' in '' @ TrimPrefix path (gopath @ ps @ ''src'' @ ps)) (dom pkgList)"
proof -
  from assms obtain funcList where
    "pkgList' = union_funcs pkgList
       (groupName (pkg_Name p) @ '' in '' @ TrimPrefix path (gopath @ ps @ ''src'' @ ps)) funcList ks"
    by (auto simp: visitPackage_def Let_def split: bind_splits if_splits)
  then show ?thesis
    by (simp only: dom_union_funcs)
qed

section \<open>The claims about the classifier\<close>

text \<open>
  C1. For every name and prefix, \<open>isTest\<close> (the predicate prefixed-and-capitalized)
  returns, without a panic, true if and only if the name starts with the prefix and
  either nothing follows the prefix or the first rune that follows it, decoded from
  UTF-8 as a whole code point, is not a lower-case letter.
\<close>

theorem C1_isTest:
  "isTest T name prefix =
     Some (\<exists>rest. name = prefix @ rest \<and>
                  (rest = [] \<or> \<not> IsLower T (fst (DecodeRuneInString rest))))"
proof (cases "HasPrefix name prefix")
  case True
  then obtain rest where "name = prefix @ rest"
    by (auto simp: HasPrefix_iff)
  then show ?thesis by (simp add: isTest_append)
next
  case False
  then show ?thesis by (auto simp: isTest_def HasPrefix_iff)
qed

text \<open>
  The names \<open>TestFoo\<close>, \<open>Test\<close>, \<open>Testify\<close> and \<open>Tes\<close>; then \<open>Test\<close> followed by the two
  bytes of U+00E9 (lower-case, although its first byte 0xC3 alone is the upper-case
  U+00C3), by those of U+00C9 (upper-case) and by those of the Greek U+03B1 (lower-case).
\<close>

theorem C1_isTest_witness:
  "isTest excerpt ''TestFoo'' ''Test'' = Some True \<and>
   isTest excerpt ''Test'' ''Test'' = Some True \<and>
   isTest excerpt ''Testify'' ''Test'' = Some False \<and>
   isTest excerpt ''Tes'' ''Test'' = Some False \<and>
   isTest excerpt [CHR ''T'', CHR ''e'', CHR ''s'', CHR ''t'', CHR 0xC3, CHR 0xA9] ''Test''
     = Some False \<and>
   isTest excerpt [CHR ''T'', CHR ''e'', CHR ''s'', CHR ''t'', CHR 0xC3, CHR 0x89] ''Test''
     = Some True \<and>
   isTest excerpt [CHR ''T'', CHR ''e'', CHR ''s'', CHR ''t'', CHR 0xCE, CHR 0xB1] ''Test''
     = Some False"
  using C1_isTest [of excerpt "''TestFoo''" "''Test''"]
    C1_isTest [of excerpt "''Test''" "''Test''"]
    C1_isTest [of excerpt "''Testify''" "''Test''"]
    C1_isTest [of excerpt "''Tes''" "''Test''"]
    C1_isTest [of excerpt "[CHR ''T'', CHR ''e'', CHR ''s'', CHR ''t'', CHR 0xC3, CHR 0xA9]" "''Test''"]
    C1_isTest [of excerpt "[CHR ''T'', CHR ''e'', CHR ''s'', CHR ''t'', CHR 0xC3, CHR 0x89]" "''Test''"]
    C1_isTest [of excerpt "[CHR ''T'', CHR ''e'', CHR ''s'', CHR ''t'', CHR 0xCE, CHR 0xB1]" "''Test''"]
  by (simp add: decode_defs case_defs)

text \<open>
  C2, as the code has it. For every example name with two or more segments,
  \<open>isMethodExample\<close> is true exactly when the first rune of the second segment is not a
  lower-case letter. When that rune is a lower-case letter the declaration is a
  sub-example: its entry is appended under segment 1 with the leading \<open>Example\<close> removed,
  and what follows the first underscore is not part of the key; so it is for
  \<open>ExampleFoo_bar\<close>, whose key is \<open>Foo\<close>.
\<close>

theorem C2_sub_example_lower_case:
  "(isExample T name = Some True \<and> isSubExample name \<longrightarrow>
      isMethodExample T name =
        Some (\<not> IsLower T (fst (DecodeRuneInString (Split name (CHR ''_'') ! 1)))) \<and>
      (IsLower T (fst (DecodeRuneInString (Split name (CHR ''_'') ! 1))) \<longrightarrow>
       visitFuncDecl T funcList \<lparr>fd_Name = name, fd_Pos = pos\<rparr> =
         Some (funcList(TrimPrefix (Split name (CHR ''_'') ! 0) ''Example'' \<mapsto>
                 at funcList (TrimPrefix (Split name (CHR ''_'') ! 0) ''Example'')
                   @ [pos @ [CHR '':'', CHR 0x09] @ name])))) \<and>
   isMethodExample T ''ExampleFoo_bar'' = Some False \<and>
   visitFuncDecl T funcList \<lparr>fd_Name = ''ExampleFoo_bar'', fd_Pos = pos\<rparr> =
     Some (funcList(''Foo'' \<mapsto> at funcList ''Foo'' @ [pos @ [CHR '':'', CHR 0x09] @ ''ExampleFoo_bar'']))"
proof -
  have e: "isExample T ''ExampleFoo_bar'' = Some True"
    using isExample_Example_append [of T "''Foo_bar''"] by (simp add: decode_defs case_defs)
  have s: "isSubExample ''ExampleFoo_bar''"
    by (simp add: isSubExample_iff)
  have l: "IsLower T (fst (DecodeRuneInString (Split ''ExampleFoo_bar'' (CHR ''_'') ! 1)))"
    by (simp add: decode_defs case_defs)
  have m: "isMethodExample T ''ExampleFoo_bar'' = Some False"
    using isMethodExample_total [OF s, of T] l by simp
  have v: "visitFuncDecl T funcList \<lparr>fd_Name = ''ExampleFoo_bar'', fd_Pos = pos\<rparr> =
     Some (funcList(''Foo'' \<mapsto> at funcList ''Foo'' @ [pos @ [CHR '':'', CHR 0x09] @ ''ExampleFoo_bar'']))"
    using sub_example [OF e s l, of funcList pos] by (simp add: TrimPrefix_def HasPrefix_def)
  show ?thesis
    using m v by (simp add: isMethodExample_total sub_example)
qed

theorem C2_sub_example_lower_case_witness:
  "isMethodExample excerpt ''ExampleFoo_two'' = Some False \<and>
   visitFuncDecl excerpt Map.empty \<lparr>fd_Name = ''ExampleFoo_two'', fd_Pos = ''a.go:3:1''\<rparr> =
     Some [''Foo'' \<mapsto> [''a.go:3:1:'' @ [CHR 0x09] @ ''ExampleFoo_two'']]"
proof -
  have e: "isExample excerpt ''ExampleFoo_two'' = Some True"
    using isExample_Example_append [of excerpt "''Foo_two''"] by (simp add: decode_defs case_defs)
  have s: "isSubExample ''ExampleFoo_two''"
    by (simp add: isSubExample_iff)
  have l: "IsLower excerpt (fst (DecodeRuneInString (Split ''ExampleFoo_two'' (CHR ''_'') ! 1)))"
    by (simp add: decode_defs case_defs)
  note c = C2_sub_example_lower_case [of excerpt "''ExampleFoo_two''" Map.empty "''a.go:3:1''",
      THEN conjunct1, rule_format, OF conjI, OF e s]
  show ?thesis
    using c l by (simp add: TrimPrefix_def HasPrefix_def at_def)
qed

text \<open>
  The claim as stated fails where the second segment begins with a digit or is empty:
  \<open>ExampleFoo_1\<close> and \<open>ExampleFoo_\<close> are method examples for the code, with the keys
  \<open>Foo.1\<close> and \<open>Foo.\<close>, not sub-examples with the key \<open>Foo\<close>.
\<close>

theorem C2_counterexample:
  "isExample excerpt ''ExampleFoo_1'' = Some True \<and>
   isSubExample ''ExampleFoo_1'' \<and>
   isMethodExample excerpt ''ExampleFoo_1'' = Some True \<and>
   visitFuncDecl excerpt Map.empty \<lparr>fd_Name = ''ExampleFoo_1'', fd_Pos = ''a.go:5:1''\<rparr> =
     Some [''Foo.1'' \<mapsto> [''a.go:5:1:'' @ [CHR 0x09] @ ''ExampleFoo_1'']] \<and>
   [''Foo.1'' \<mapsto> [''a.go:5:1:'' @ [CHR 0x09] @ ''ExampleFoo_1'']] ''Foo'' = None \<and>
   isExample excerpt ''ExampleFoo_'' = Some True \<and>
   isSubExample ''ExampleFoo_'' \<and>
   isMethodExample excerpt ''ExampleFoo_'' = Some True \<and>
   visitFuncDecl excerpt Map.empty \<lparr>fd_Name = ''ExampleFoo_'', fd_Pos = ''a.go:6:1''\<rparr> =
     Some [''Foo.'' \<mapsto> [''a.go:6:1:'' @ [CHR 0x09] @ ''ExampleFoo_'']] \<and>
   [''Foo.'' \<mapsto> [''a.go:6:1:'' @ [CHR 0x09] @ ''ExampleFoo_'']] ''Foo'' = None"
proof -
  have e: "isExample excerpt ''ExampleFoo_1'' = Some True"
    using isExample_Example_append [of excerpt "''Foo_1''"] by (simp add: decode_defs case_defs)
  have s: "isSubExample ''ExampleFoo_1''"
    by (simp add: isSubExample_iff)
  have l: "\<not> IsLower excerpt (fst (DecodeRuneInString (Split ''ExampleFoo_1'' (CHR ''_'') ! 1)))"
    by (simp add: decode_defs case_defs)
  have m: "isMethodExample excerpt ''ExampleFoo_1'' = Some True"
    using isMethodExample_total [OF s, of excerpt] l by simp
  have v: "visitFuncDecl excerpt Map.empty \<lparr>fd_Name = ''ExampleFoo_1'', fd_Pos = ''a.go:5:1''\<rparr> =
     Some [''Foo.1'' \<mapsto> [''a.go:5:1:'' @ [CHR 0x09] @ ''ExampleFoo_1'']]"
    using method_example [OF e s l, of Map.empty "''a.go:5:1''"]
    by (simp add: TrimPrefix_def HasPrefix_def at_def)
  have e': "isExample excerpt ''ExampleFoo_'' = Some True"
    using isExample_Example_append [of excerpt "''Foo_''"] by (simp add: decode_defs case_defs)
  have s': "isSubExample ''ExampleFoo_''"
    by (simp add: isSubExample_iff)
  have l': "\<not> IsLower excerpt (fst (DecodeRuneInString (Split ''ExampleFoo_'' (CHR ''_'') ! 1)))"
    by (simp add: decode_defs case_defs)
  have m': "isMethodExample excerpt ''ExampleFoo_'' = Some True"
    using isMethodExample_total [OF s', of excerpt] l' by simp
  have v': "visitFuncDecl excerpt Map.empty \<lparr>fd_Name = ''ExampleFoo_'', fd_Pos = ''a.go:6:1''\<rparr> =
     Some [''Foo.'' \<mapsto> [''a.go:6:1:'' @ [CHR 0x09] @ ''ExampleFoo_'']]"
    using method_example [OF e' s' l', of Map.empty "''a.go:6:1''"]
    by (simp add: TrimPrefix_def HasPrefix_def at_def)
  show ?thesis
    using e s m v e' s' m' v' by simp
qed

text \<open>
  C5. For every example name with two or more segments whose second segment begins with
  an upper-case letter, \<open>isMethodExample\<close> is true and the entry is appended under the key
  made of segment 1 with the leading \<open>Example\<close> removed, a dot, and segment 2 as it is;
  \<open>ExampleFoo_Bar\<close> has the key \<open>Foo.Bar\<close>.
\<close>

theorem C5_method_example:
  "(isExample T name = Some True \<and> isSubExample name \<and>
    IsUpper T (fst (DecodeRuneInString (Split name (CHR ''_'') ! 1))) \<longrightarrow>
      isMethodExample T name = Some True \<and>
      visitFuncDecl T funcList \<lparr>fd_Name = name, fd_Pos = pos\<rparr> =
        Some (funcList(TrimPrefix (Split name (CHR ''_'') ! 0) ''Example'' @ ''.''
                         @ Split name (CHR ''_'') ! 1 \<mapsto>
                at funcList (TrimPrefix (Split name (CHR ''_'') ! 0) ''Example'' @ ''.''
                         @ Split name (CHR ''_'') ! 1)
                  @ [pos @ [CHR '':'', CHR 0x09] @ name]))) \<and>
   isMethodExample T ''ExampleFoo_Bar'' = Some True \<and>
   visitFuncDecl T funcList \<lparr>fd_Name = ''ExampleFoo_Bar'', fd_Pos = pos\<rparr> =
     Some (funcList(''Foo.Bar'' \<mapsto>
             at funcList ''Foo.Bar'' @ [pos @ [CHR '':'', CHR 0x09] @ ''ExampleFoo_Bar'']))"
proof -
  have e: "isExample T ''ExampleFoo_Bar'' = Some True"
    using isExample_Example_append [of T "''Foo_Bar''"] by (simp add: decode_defs case_defs)
  have s: "isSubExample ''ExampleFoo_Bar''"
    by (simp add: isSubExample_iff)
  have u: "\<not> IsLower T (fst (DecodeRuneInString (Split ''ExampleFoo_Bar'' (CHR ''_'') ! 1)))"
    by (simp add: decode_defs case_defs)
  have m: "isMethodExample T ''ExampleFoo_Bar'' = Some True"
    using isMethodExample_total [OF s, of T] u by simp
  have v: "visitFuncDecl T funcList \<lparr>fd_Name = ''ExampleFoo_Bar'', fd_Pos = pos\<rparr> =
     Some (funcList(''Foo.Bar'' \<mapsto>
             at funcList ''Foo.Bar'' @ [pos @ [CHR '':'', CHR 0x09] @ ''ExampleFoo_Bar'']))"
    using method_example [OF e s u, of funcList pos] by (simp add: TrimPrefix_def HasPrefix_def)
  show ?thesis
    using m v by (simp add: isMethodExample_total method_example IsUpper_not_IsLower)
qed

text \<open>The Greek method name U+0391 U+03B1 on the type \<open>Foo\<close>.\<close>

theorem C5_method_example_witness:
  "isMethodExample excerpt (''ExampleFoo_'' @ [CHR 0xCE, CHR 0x91, CHR 0xCE, CHR 0xB1]) = Some True \<and>
   visitFuncDecl excerpt Map.empty
     \<lparr>fd_Name = ''ExampleFoo_'' @ [CHR 0xCE, CHR 0x91, CHR 0xCE, CHR 0xB1], fd_Pos = ''a.go:4:1''\<rparr> =
     Some [''Foo.'' @ [CHR 0xCE, CHR 0x91, CHR 0xCE, CHR 0xB1] \<mapsto>
             [''a.go:4:1:'' @ [CHR 0x09] @ ''ExampleFoo_'' @ [CHR 0xCE, CHR 0x91, CHR 0xCE, CHR 0xB1]]]"
proof -
  have e: "isExample excerpt (''ExampleFoo_'' @ [CHR 0xCE, CHR 0x91, CHR 0xCE, CHR 0xB1]) = Some True"
    using isExample_Example_append [of excerpt "''Foo_'' @ [CHR 0xCE, CHR 0x91, CHR 0xCE, CHR 0xB1]"]
    by (simp add: decode_defs case_defs)
  have s: "isSubExample (''ExampleFoo_'' @ [CHR 0xCE, CHR 0x91, CHR 0xCE, CHR 0xB1])"
    by (simp add: isSubExample_iff)
  have u: "IsUpper excerpt (fst (DecodeRuneInString
             (Split (''ExampleFoo_'' @ [CHR 0xCE, CHR 0x91, CHR 0xCE, CHR 0xB1]) (CHR ''_'') ! 1)))"
    by (simp add: decode_defs case_defs)
  note c = C5_method_example [of excerpt "''ExampleFoo_'' @ [CHR 0xCE, CHR 0x91, CHR 0xCE, CHR 0xB1]"
      Map.empty "''a.go:4:1''", THEN conjunct1, rule_format, OF conjI, OF e conjI, OF s u]
  show ?thesis
    using c by (simp add: TrimPrefix_def HasPrefix_def at_def)
qed

text \<open>
  C6. For every example name without an underscore the entry is appended under the name
  with the leading \<open>Example\<close> removed: the declaration is a function example. The name
  \<open>Example\<close> has the empty key, the name \<open>ExampleFoo\<close> the key \<open>Foo\<close>.
\<close>

theorem C6_function_example:
  "(isExample T name = Some True \<and> CHR ''_'' \<notin> set name \<longrightarrow>
      \<not> isSubExample name \<and>
      visitFuncDecl T funcList \<lparr>fd_Name = name, fd_Pos = pos\<rparr> =
        Some (funcList(TrimPrefix name ''Example'' \<mapsto>
                at funcList (TrimPrefix name ''Example'') @ [pos @ [CHR '':'', CHR 0x09] @ name]))) \<and>
   visitFuncDecl T funcList \<lparr>fd_Name = ''Example'', fd_Pos = pos\<rparr> =
     Some (funcList([] \<mapsto> at funcList [] @ [pos @ [CHR '':'', CHR 0x09] @ ''Example''])) \<and>
   visitFuncDecl T funcList \<lparr>fd_Name = ''ExampleFoo'', fd_Pos = pos\<rparr> =
     Some (funcList(''Foo'' \<mapsto> at funcList ''Foo'' @ [pos @ [CHR '':'', CHR 0x09] @ ''ExampleFoo'']))"
proof -
  have e1: "isExample T ''Example'' = Some True"
    using isExample_Example_append [of T "[]"] by simp
  have e2: "isExample T ''ExampleFoo'' = Some True"
    using isExample_Example_append [of T "''Foo''"] by (simp add: decode_defs case_defs)
  have v1: "visitFuncDecl T funcList \<lparr>fd_Name = ''Example'', fd_Pos = pos\<rparr> =
     Some (funcList([] \<mapsto> at funcList [] @ [pos @ [CHR '':'', CHR 0x09] @ ''Example'']))"
    using function_example [OF e1, of funcList pos] by (simp add: TrimPrefix_def HasPrefix_def)
  have v2: "visitFuncDecl T funcList \<lparr>fd_Name = ''ExampleFoo'', fd_Pos = pos\<rparr> =
     Some (funcList(''Foo'' \<mapsto> at funcList ''Foo'' @ [pos @ [CHR '':'', CHR 0x09] @ ''ExampleFoo'']))"
    using function_example [OF e2, of funcList pos] by (simp add: TrimPrefix_def HasPrefix_def)
  show ?thesis
    using v1 v2 by (simp add: isSubExample_iff function_example)
qed

text \<open>The function \<open>New\<close>, with an earlier example already in the map.\<close>

theorem C6_function_example_witness:
  "visitFuncDecl excerpt [''New'' \<mapsto> [''a_test.go:2:1:'' @ [CHR 0x09] @ ''ExampleNew_other'']]
     \<lparr>fd_Name = ''ExampleNew'', fd_Pos = ''a_test.go:9:1''\<rparr> =
     Some [''New'' \<mapsto> [''a_test.go:2:1:'' @ [CHR 0x09] @ ''ExampleNew_other'',
                       ''a_test.go:9:1:'' @ [CHR 0x09] @ ''ExampleNew'']]"
proof -
  have e: "isExample excerpt ''ExampleNew'' = Some True"
    using isExample_Example_append [of excerpt "''New''"] by (simp add: decode_defs case_defs)
  have n: "CHR ''_'' \<notin> set ''ExampleNew''"
    by simp
  note c = C6_function_example [of excerpt "''ExampleNew''"
      "[''New'' \<mapsto> [''a_test.go:2:1:'' @ [CHR 0x09] @ ''ExampleNew_other'']]" "''a_test.go:9:1''",
      THEN conjunct1, rule_format, OF conjI, OF e n]
  show ?thesis
    using c by (simp add: TrimPrefix_def HasPrefix_def at_def)
qed

section \<open>The claims about the grouping engine\<close>

text \<open>
  C4, as the code has it. A declaration whose name is a test or a benchmark for \<open>isTest\<close>
  leaves the map of its package as it is: it adds no key and no entry, and a package
  gives the same map with and without its tests and benchmarks. No entry of a map is
  the entry of a test or a benchmark. The name of a test or a benchmark is a key of the
  map only when an example declaration of the package is stored under that key. The
  name \<open>Testify\<close> is not a test and is recorded as a function, with an empty list.
\<close>

theorem C4_tests_and_benchmarks_excluded:
  "(isTest T name ''Test'' = Some True \<or> isTest T name ''Benchmark'' = Some True \<longrightarrow>
      visitFuncDecl T funcList \<lparr>fd_Name = name, fd_Pos = pos\<rparr> = Some funcList) \<and>
   inspectDecls T (filter (\<lambda>x. \<not> isTestOrBenchmark T (fd_Name x)) xs) funcList =
     inspectDecls T xs funcList \<and>
   (inspectDecls T xs Map.empty = Some m \<and> m k = Some v \<and> e \<in> set v \<longrightarrow>
      (\<exists>x\<in>set xs. \<not> isTestOrBenchmark T (fd_Name x) \<and>
                   e = fd_Pos x @ [CHR '':'', CHR 0x09] @ fd_Name x)) \<and>
   (inspectDecls T xs Map.empty = Some m \<and> m k \<noteq> None \<and> isTestOrBenchmark T k \<longrightarrow>
      (\<exists>x\<in>set xs. isExample T (fd_Name x) = Some True \<and>
         (\<exists>m'. visitFuncDecl T Map.empty x = Some m' \<and> m' k \<noteq> None))) \<and>
   isTest T ''Testify'' ''Test'' = Some False \<and>
   visitFuncDecl T funcList \<lparr>fd_Name = ''Testify'', fd_Pos = pos\<rparr> =
     Some (funcList(''Testify'' \<mapsto> []))"
proof -
  have a: "visitFuncDecl T funcList \<lparr>fd_Name = name, fd_Pos = pos\<rparr> = Some funcList"
    if "isTest T name ''Test'' = Some True \<or> isTest T name ''Benchmark'' = Some True"
    using visit_test [of T "\<lparr>fd_Name = name, fd_Pos = pos\<rparr>" funcList] that by simp
  have b: "\<exists>x\<in>set xs. \<not> isTestOrBenchmark T (fd_Name x) \<and>
                   e = fd_Pos x @ [CHR '':'', CHR 0x09] @ fd_Name x"
    if h: "inspectDecls T xs Map.empty = Some m \<and> m k = Some v \<and> e \<in> set v"
  proof -
    from h have "e \<in> set (at m k)" by (simp add: at_def)
    with h have "e \<in> set (at Map.empty k) \<or>
         (\<exists>x\<in>set xs. isExample T (fd_Name x) = Some True \<and>
                      e = fd_Pos x @ [CHR '':'', CHR 0x09] @ fd_Name x)"
      using inspectDecls_entries [of T xs Map.empty m e k] by blast
    then show ?thesis
      using isExample_not_TestOrBenchmark by (auto simp: at_def)
  qed
  have c: "\<exists>x\<in>set xs. isExample T (fd_Name x) = Some True \<and>
         (\<exists>m'. visitFuncDecl T Map.empty x = Some m' \<and> m' k \<noteq> None)"
    if h: "inspectDecls T xs Map.empty = Some m \<and> m k \<noteq> None \<and> isTestOrBenchmark T k"
    using inspectDecls_keys [of T xs Map.empty m k] h by auto
  have d: "isTest T ''Testify'' ''Test'' = Some False"
    using isTest_append [of T "''Test''" "''ify''"] by (simp add: decode_defs case_defs)
  show ?thesis
    using a b c d by (simp only: inspectDecls_skip_tests visit_Testify) blast
qed

text \<open>
  Tests and benchmarks that leave a map unchanged; then the package with the test
  \<open>TestFoo\<close> and the example \<open>ExampleTestFoo\<close>, whose one entry and one key come from the
  example.
\<close>

theorem C4_tests_and_benchmarks_excluded_witness:
  "isTest excerpt ''TestFoo'' ''Test'' = Some True \<and>
   isTest excerpt ''BenchmarkFoo'' ''Benchmark'' = Some True \<and>
   visitFuncDecl excerpt [''Foo'' \<mapsto> []]
     \<lparr>fd_Name = ''TestFoo'', fd_Pos = ''a_test.go:9:1''\<rparr> = Some [''Foo'' \<mapsto> []] \<and>
   visitFuncDecl excerpt [''Foo'' \<mapsto> []]
     \<lparr>fd_Name = ''BenchmarkFoo'', fd_Pos = ''a_test.go:12:1''\<rparr> = Some [''Foo'' \<mapsto> []] \<and>
   visitFuncDecl excerpt Map.empty \<lparr>fd_Name = ''Testify'', fd_Pos = ''a.go:8:1''\<rparr> =
     Some [''Testify'' \<mapsto> []] \<and>
   (\<exists>x\<in>set [\<lparr>fd_Name = ''TestFoo'', fd_Pos = ''a_test.go:3:1''\<rparr>,
             \<lparr>fd_Name = ''ExampleTestFoo'', fd_Pos = ''a_test.go:7:1''\<rparr>].
      \<not> isTestOrBenchmark excerpt (fd_Name x) \<and>
      ''a_test.go:7:1:'' @ [CHR 0x09] @ ''ExampleTestFoo'' =
        fd_Pos x @ [CHR '':'', CHR 0x09] @ fd_Name x) \<and>
   (\<exists>x\<in>set [\<lparr>fd_Name = ''TestFoo'', fd_Pos = ''a_test.go:3:1''\<rparr>,
             \<lparr>fd_Name = ''ExampleTestFoo'', fd_Pos = ''a_test.go:7:1''\<rparr>].
      isExample excerpt (fd_Name x) = Some True \<and>
      (\<exists>m'. visitFuncDecl excerpt Map.empty x = Some m' \<and> m' ''TestFoo'' \<noteq> None))"
proof -
  let ?xs = "[\<lparr>fd_Name = ''TestFoo'', fd_Pos = ''a_test.go:3:1''\<rparr>,
              \<lparr>fd_Name = ''ExampleTestFoo'', fd_Pos = ''a_test.go:7:1''\<rparr>]"
  let ?e = "''a_test.go:7:1:'' @ [CHR 0x09] @ ''ExampleTestFoo''"
  let ?m = "[''TestFoo'' \<mapsto> [?e]]"
  have t: "isTest excerpt ''TestFoo'' ''Test'' = Some True"
    using isTest_append [of excerpt "''Test''" "''Foo''"] by (simp add: decode_defs case_defs)
  have b: "isTest excerpt ''BenchmarkFoo'' ''Benchmark'' = Some True"
    using isTest_append [of excerpt "''Benchmark''" "''Foo''"] by (simp add: decode_defs case_defs)
  note c1 = C4_tests_and_benchmarks_excluded
    [of excerpt "''TestFoo''" "[''Foo'' \<mapsto> []]" "''a_test.go:9:1''" "[]", THEN conjunct1]
  note c2 = C4_tests_and_benchmarks_excluded
    [of excerpt "''BenchmarkFoo''" "[''Foo'' \<mapsto> []]" "''a_test.go:12:1''" "[]", THEN conjunct1]
  note c = C4_tests_and_benchmarks_excluded
    [of excerpt "''TestFoo''" Map.empty "''a.go:8:1''" ?xs ?m "''TestFoo''" "[?e]" ?e]
  have v1: "visitFuncDecl excerpt [''Foo'' \<mapsto> []]
      \<lparr>fd_Name = ''TestFoo'', fd_Pos = ''a_test.go:9:1''\<rparr> = Some [''Foo'' \<mapsto> []]"
    using c1 t by blast
  have v2: "visitFuncDecl excerpt [''Foo'' \<mapsto> []]
      \<lparr>fd_Name = ''BenchmarkFoo'', fd_Pos = ''a_test.go:12:1''\<rparr> = Some [''Foo'' \<mapsto> []]"
    using c2 b by blast
  have h3: "inspectDecls excerpt ?xs Map.empty = Some ?m \<and> ?m ''TestFoo'' = Some [?e] \<and>
            ?e \<in> set [?e]"
    using test_package by simp
  have h4: "inspectDecls excerpt ?xs Map.empty = Some ?m \<and> ?m ''TestFoo'' \<noteq> None \<and>
            isTestOrBenchmark excerpt ''TestFoo''"
    using test_package t by (simp add: isTestOrBenchmark_def)
  note e3 = c [THEN conjunct2, THEN conjunct2, THEN conjunct1, rule_format, OF h3]
  note e4 = c [THEN conjunct2, THEN conjunct2, THEN conjunct2, THEN conjunct1, rule_format, OF h4]
  note e6 = c [THEN conjunct2, THEN conjunct2, THEN conjunct2, THEN conjunct2, THEN conjunct2]
  show ?thesis
    using t b v1 v2 e6 e3 e4 by (intro conjI) simp_all
qed

text \<open>
  The claim as stated fails: the example \<open>ExampleTestFoo\<close> is stored under the name with
  \<open>Example\<close> removed, so the name of the test \<open>TestFoo\<close> is a key of the map.
\<close>

theorem C4_counterexample:
  "isTest excerpt ''TestFoo'' ''Test'' = Some True \<and>
   inspectDecls excerpt
     [\<lparr>fd_Name = ''TestFoo'', fd_Pos = ''a_test.go:3:1''\<rparr>,
      \<lparr>fd_Name = ''ExampleTestFoo'', fd_Pos = ''a_test.go:7:1''\<rparr>]
     Map.empty = Some [''TestFoo'' \<mapsto> [''a_test.go:7:1:'' @ [CHR 0x09] @ ''ExampleTestFoo'']] \<and>
   [''TestFoo'' \<mapsto> [''a_test.go:7:1:'' @ [CHR 0x09] @ ''ExampleTestFoo'']] ''TestFoo'' =
     Some [''a_test.go:7:1:'' @ [CHR 0x09] @ ''ExampleTestFoo'']"
proof -
  have t: "isTest excerpt ''TestFoo'' ''Test'' = Some True"
    using isTest_append [of excerpt "''Test''" "''Foo''"] by (simp add: decode_defs case_defs)
  show ?thesis
    using t test_package by simp
qed

text \<open>
  C3. The claim is that a function declared after one of its examples keeps the example.
  The code stores a new empty list for every declaration that is not an example
  (line 89), also over a list that holds examples: with the example \<open>ExampleFoo\<close> visited
  before the function \<open>Foo\<close> the key \<open>Foo\<close> ends with the empty list, while the other
  order keeps the example.
\<close>

theorem C3_example_then_declaration:
  "inspectDecls excerpt
     [\<lparr>fd_Name = ''ExampleFoo'', fd_Pos = ''a_test.go:2:1''\<rparr>,
      \<lparr>fd_Name = ''Foo'', fd_Pos = ''a.go:1:1''\<rparr>]
     Map.empty = Some [''Foo'' \<mapsto> []] \<and>
   inspectDecls excerpt
     [\<lparr>fd_Name = ''Foo'', fd_Pos = ''a.go:1:1''\<rparr>,
      \<lparr>fd_Name = ''ExampleFoo'', fd_Pos = ''a_test.go:2:1''\<rparr>]
     Map.empty = Some [''Foo'' \<mapsto> [''a_test.go:2:1:'' @ [CHR 0x09] @ ''ExampleFoo'']]"
proof -
  have e: "isExample excerpt ''ExampleFoo'' = Some True"
    using isExample_Example_append [of excerpt "''Foo''"] by (simp add: decode_defs case_defs)
  have ex: "visitFuncDecl excerpt funcList \<lparr>fd_Name = ''ExampleFoo'', fd_Pos = ''a_test.go:2:1''\<rparr> =
      Some (funcList(''Foo'' \<mapsto> at funcList ''Foo'' @ [''a_test.go:2:1:'' @ [CHR 0x09] @ ''ExampleFoo'']))"
    for funcList
    using function_example [OF e, of funcList "''a_test.go:2:1''"]
    by (simp add: TrimPrefix_def HasPrefix_def)
  have pl: "visitFuncDecl excerpt funcList \<lparr>fd_Name = ''Foo'', fd_Pos = ''a.go:1:1''\<rparr> =
      Some (funcList(''Foo'' \<mapsto> []))" for funcList
    using visit_plain [of excerpt "\<lparr>fd_Name = ''Foo'', fd_Pos = ''a.go:1:1''\<rparr>" funcList]
    by (simp add: isExample_def isTest_def HasPrefix_def)
  show ?thesis
    by (simp add: ex pl at_def)
qed

text \<open>
  C9, as the code has it. Every entry of the map of a package is the position of an
  example declaration of that package, a colon, one tab character, and the name of that
  declaration as it is written: \<open>filePos\<close> is made with the format \<open>"%s:\t"\<close>.
\<close>

theorem C9_entry_format:
  "inspectDecls T xs Map.empty = Some funcList \<and> funcList k = Some v \<and> e \<in> set v \<longrightarrow>
     (\<exists>x\<in>set xs. isExample T (fd_Name x) = Some True \<and>
                  e = fd_Pos x @ [CHR '':'', CHR 0x09] @ fd_Name x)"
proof (intro impI)
  assume a: "inspectDecls T xs Map.empty = Some funcList \<and> funcList k = Some v \<and> e \<in> set v"
  then have "e \<in> set (at funcList k)"
    by (simp add: at_def)
  with a have "e \<in> set (at Map.empty k) \<or>
         (\<exists>x\<in>set xs. isExample T (fd_Name x) = Some True \<and>
                      e = fd_Pos x @ [CHR '':'', CHR 0x09] @ fd_Name x)"
    using inspectDecls_entries [of T xs Map.empty funcList e k] by blast
  then show "\<exists>x\<in>set xs. isExample T (fd_Name x) = Some True \<and>
                  e = fd_Pos x @ [CHR '':'', CHR 0x09] @ fd_Name x"
    by (simp add: at_def)
qed

text \<open>The package \<open>demo\<close> with the function \<open>Foo\<close>, its example and its test.\<close>

theorem C9_entry_format_witness:
  "\<exists>x\<in>set [\<lparr>fd_Name = ''Foo'', fd_Pos = ''a.go:1:1''\<rparr>,
            \<lparr>fd_Name = ''ExampleFoo'', fd_Pos = ''a_test.go:2:1''\<rparr>,
            \<lparr>fd_Name = ''TestFoo'', fd_Pos = ''a_test.go:9:1''\<rparr>].
      isExample excerpt (fd_Name x) = Some True \<and>
      ''a_test.go:2:1:'' @ [CHR 0x09] @ ''ExampleFoo'' = fd_Pos x @ [CHR '':'', CHR 0x09] @ fd_Name x"
proof -
  have h: "inspectDecls excerpt
     [\<lparr>fd_Name = ''Foo'', fd_Pos = ''a.go:1:1''\<rparr>,
      \<lparr>fd_Name = ''ExampleFoo'', fd_Pos = ''a_test.go:2:1''\<rparr>,
      \<lparr>fd_Name = ''TestFoo'', fd_Pos = ''a_test.go:9:1''\<rparr>]
     Map.empty = Some [''Foo'' \<mapsto> [''a_test.go:2:1:'' @ [CHR 0x09] @ ''ExampleFoo'']] \<and>
     [''Foo'' \<mapsto> [''a_test.go:2:1:'' @ [CHR 0x09] @ ''ExampleFoo'']] ''Foo'' =
       Some [''a_test.go:2:1:'' @ [CHR 0x09] @ ''ExampleFoo''] \<and>
     ''a_test.go:2:1:'' @ [CHR 0x09] @ ''ExampleFoo'' \<in> set [''a_test.go:2:1:'' @ [CHR 0x09] @ ''ExampleFoo'']"
    using demo_package by simp
  show ?thesis
    by (rule C9_entry_format [rule_format, OF h])
qed

text \<open>
  The claim as stated fails: a colon stands between the position and the tab, so the
  entry of \<open>ExampleFoo\<close> is not its position, a tab and its name.
\<close>

theorem C9_counterexample:
  "visitFuncDecl excerpt Map.empty \<lparr>fd_Name = ''ExampleFoo'', fd_Pos = ''a_test.go:2:1''\<rparr> =
     Some [''Foo'' \<mapsto> [''a_test.go:2:1'' @ [CHR '':'', CHR 0x09] @ ''ExampleFoo'']] \<and>
   ''a_test.go:2:1'' @ [CHR '':'', CHR 0x09] @ ''ExampleFoo'' \<noteq>
   ''a_test.go:2:1'' @ [CHR 0x09] @ ''ExampleFoo''"
proof -
  have e: "isExample excerpt ''ExampleFoo'' = Some True"
    using isExample_Example_append [of excerpt "''Foo''"] by (simp add: decode_defs case_defs)
  show ?thesis
    using function_example [OF e, of Map.empty "''a_test.go:2:1''"]
    by (simp add: TrimPrefix_def HasPrefix_def at_def)
qed

text \<open>
  C10. No classifier function panics where the program calls it. \<open>isTest\<close> returns for
  every name and prefix, since it slices the name only after the prefix test; segment 0
  of a split always exists; \<open>isMethodExample\<close> returns whenever \<open>isSubExample\<close> holds
  and would panic otherwise, and the program calls it only in the branch where
  \<open>isSubExample\<close> holds, so the processing of a declaration and of a whole package
  always returns. Decoding the empty string gives \<open>RuneError\<close> and the width 0, which is
  what \<open>isMethodExample\<close> tests for a name that ends with its first underscore.
\<close>

theorem C10_no_panic:
  "(\<exists>b. isTest T name prefix = Some b) \<and>
   (\<exists>key. index (Split name (CHR ''_'')) 0 = Some key) \<and>
   (isSubExample name \<longrightarrow>
      isMethodExample T name =
        Some (\<not> IsLower T (fst (DecodeRuneInString (Split name (CHR ''_'') ! 1))))) \<and>
   (\<not> isSubExample name \<longrightarrow> isMethodExample T name = None) \<and>
   (\<exists>funcList'. visitFuncDecl T funcList \<lparr>fd_Name = name, fd_Pos = pos\<rparr> = Some funcList') \<and>
   (\<exists>funcList'. inspectDecls T xs funcList = Some funcList') \<and>
   DecodeRuneInString [] = (RuneError, 0) \<and>
   isMethodExample T ''ExampleFoo_'' = Some (\<not> IsLower T RuneError)"
proof -
  have s: "isSubExample ''ExampleFoo_''"
    by (simp add: isSubExample_iff)
  have d: "DecodeRuneInString [] = (RuneError, 0)"
    by (simp add: DecodeRuneInString_def)
  have m: "isMethodExample T ''ExampleFoo_'' = Some (\<not> IsLower T RuneError)"
    using isMethodExample_total [OF s, of T] by (simp add: d)
  show ?thesis
    using m d visit_total inspectDecls_total
    by (simp add: isTest_value index_Split_0 isMethodExample_total isMethodExample_panics)
qed

theorem C10_no_panic_witness:
  "isMethodExample excerpt ''ExampleFoo_bar'' = Some False \<and>
   isMethodExample excerpt ''ExampleFoo'' = None \<and>
   isMethodExample excerpt ''ExampleFoo_'' = Some True"
proof -
  have s: "isSubExample ''ExampleFoo_bar''"
    by (simp add: isSubExample_iff)
  have n: "\<not> isSubExample ''ExampleFoo''"
    by (simp add: isSubExample_iff)
  note c = C10_no_panic [of excerpt "''ExampleFoo_bar''" "''Example''" Map.empty "''a.go:3:1''" "[]"]
  note d = C10_no_panic [of excerpt "''ExampleFoo''" "''Example''" Map.empty "''a.go:3:1''" "[]"]
  have m1: "isMethodExample excerpt ''ExampleFoo_bar'' = Some False"
    using c [THEN conjunct2, THEN conjunct2, THEN conjunct1] s
    by (simp add: decode_defs case_defs)
  have m2: "isMethodExample excerpt ''ExampleFoo'' = None"
    using d [THEN conjunct2, THEN conjunct2, THEN conjunct2, THEN conjunct1] n by blast
  have m3: "isMethodExample excerpt ''ExampleFoo_'' = Some True"
    using c [THEN conjunct2, THEN conjunct2, THEN conjunct2, THEN conjunct2,
        THEN conjunct2, THEN conjunct2, THEN conjunct2]
    by (simp add: decode_defs case_defs)
  show ?thesis using m1 m2 m3 by simp
qed

section \<open>The claims about the package aggregator\<close>

text \<open>
  C7. When the group of a package holds the map \<open>M\<close> and the same map \<open>M\<close> is merged
  into it, with the range loop visiting the keys of \<open>M\<close> once each in any order, the
  group has the keys of \<open>M\<close> and no other, and under every key the list of \<open>M\<close> twice,
  so a list of twice the length.
\<close>

theorem C7_merge_with_itself:
  "group pkgList pkgName = M \<and> set ks = dom M \<and> distinct ks \<longrightarrow>
     dom (group (union_funcs pkgList pkgName M ks) pkgName) = dom M \<and>
     (\<forall>k. at (group (union_funcs pkgList pkgName M ks) pkgName) k = at M k @ at M k) \<and>
     (\<forall>k. length (at (group (union_funcs pkgList pkgName M ks) pkgName) k) = 2 * length (at M k))"
proof (intro impI)
  assume a: "group pkgList pkgName = M \<and> set ks = dom M \<and> distinct ks"
  then have g: "group (union_funcs pkgList pkgName M ks) pkgName =
      (\<lambda>k. map_option (\<lambda>v. v @ v) (M k))"
    by (simp add: union_funcs_self)
  have d: "dom (\<lambda>k. map_option (\<lambda>v. v @ v) (M k)) = dom M"
    by (auto simp: dom_def)
  have e: "at (\<lambda>k. map_option (\<lambda>v. v @ v) (M k)) k = at M k @ at M k" for k
    by (simp add: at_def split: option.splits)
  show "dom (group (union_funcs pkgList pkgName M ks) pkgName) = dom M \<and>
     (\<forall>k. at (group (union_funcs pkgList pkgName M ks) pkgName) k = at M k @ at M k) \<and>
     (\<forall>k. length (at (group (union_funcs pkgList pkgName M ks) pkgName) k) = 2 * length (at M k))"
    unfolding g using d e by simp
qed

theorem C7_merge_with_itself_witness:
  "dom (group (union_funcs
          [''demo in demo'' \<mapsto> [''Foo'' \<mapsto> [''a_test.go:2:1:'' @ [CHR 0x09] @ ''ExampleFoo''], ''Bar'' \<mapsto> []]]
          ''demo in demo''
          [''Foo'' \<mapsto> [''a_test.go:2:1:'' @ [CHR 0x09] @ ''ExampleFoo''], ''Bar'' \<mapsto> []]
          [''Bar'', ''Foo'']) ''demo in demo'') = {''Foo'', ''Bar''} \<and>
   at (group (union_funcs
          [''demo in demo'' \<mapsto> [''Foo'' \<mapsto> [''a_test.go:2:1:'' @ [CHR 0x09] @ ''ExampleFoo''], ''Bar'' \<mapsto> []]]
          ''demo in demo''
          [''Foo'' \<mapsto> [''a_test.go:2:1:'' @ [CHR 0x09] @ ''ExampleFoo''], ''Bar'' \<mapsto> []]
          [''Bar'', ''Foo'']) ''demo in demo'') ''Foo'' =
     [''a_test.go:2:1:'' @ [CHR 0x09] @ ''ExampleFoo'', ''a_test.go:2:1:'' @ [CHR 0x09] @ ''ExampleFoo''] \<and>
   at (group (union_funcs
          [''demo in demo'' \<mapsto> [''Foo'' \<mapsto> [''a_test.go:2:1:'' @ [CHR 0x09] @ ''ExampleFoo''], ''Bar'' \<mapsto> []]]
          ''demo in demo''
          [''Foo'' \<mapsto> [''a_test.go:2:1:'' @ [CHR 0x09] @ ''ExampleFoo''], ''Bar'' \<mapsto> []]
          [''Bar'', ''Foo'']) ''demo in demo'') ''Bar'' = []"
proof -
  let ?M = "[''Foo'' \<mapsto> [''a_test.go:2:1:'' @ [CHR 0x09] @ ''ExampleFoo''], ''Bar'' \<mapsto> []]"
  have h: "group [''demo in demo'' \<mapsto> ?M] ''demo in demo'' = ?M \<and>
           set [''Bar'', ''Foo''] = dom ?M \<and> distinct [''Bar'', ''Foo'']"
    by (auto simp: group_def)
  note c = C7_merge_with_itself [of "[''demo in demo'' \<mapsto> ?M]" "''demo in demo''" ?M
      "[''Bar'', ''Foo'']", rule_format, OF h]
  show ?thesis
    using c by (auto simp: at_def)
qed

text \<open>
  C8, as the code has it. A package name that ends with \<open>_test\<close> is replaced by the name
  without that suffix, once, so the package \<open>X_test\<close> goes to the group of \<open>X\<close>; any other
  name is kept. The name of the group does not end with \<open>_test\<close> unless the package name
  ends with \<open>_test_test\<close>. Processing a package adds to the collection the one key made
  of that group name, \<open>" in "\<close> and the path without the root.
\<close>

theorem C8_test_variant_folded:
  "groupName (X @ ''_test'') = X \<and>
   (HasSuffix pName ''_test'' \<longrightarrow> groupName pName = TrimSuffix pName ''_test'') \<and>
   (\<not> HasSuffix pName ''_test'' \<longrightarrow> groupName pName = pName) \<and>
   (\<not> HasSuffix pName ''_test_test'' \<longrightarrow> \<not> HasSuffix (groupName pName) ''_test'') \<and>
   (visitPackage T gopath ps path pkgList p ks = Some pkgList' \<longrightarrow>
      dom pkgList' =
        insert (groupName (pkg_Name p) @ '' in '' @ TrimPrefix path (gopath @ ps @ ''src'' @ ps))
          (dom pkgList))"
  using groupName_test groupName_no_suffix visitPackage_dom
  by (simp add: groupName_def)

theorem C8_test_variant_folded_witness:
  "groupName ''demo_test'' = ''demo'' \<and>
   groupName ''demo'' = ''demo'' \<and>
   \<not> HasSuffix (groupName ''demo_test'') ''_test'' \<and>
   dom (the (visitPackage excerpt ''/go'' ''/'' ''/go/src/x/demo''
          [''demo in x/demo'' \<mapsto> [''Foo'' \<mapsto> []]]
          \<lparr>pkg_Name = ''demo_test'', pkg_exports = False, pkg_decls = []\<rparr> [])) =
     {''demo in x/demo''}"
proof -
  have h1: "HasSuffix ''demo_test'' ''_test''" by (simp add: HasSuffix_def)
  have h2: "\<not> HasSuffix ''demo'' ''_test''" by (simp add: HasSuffix_def)
  have h3: "\<not> HasSuffix ''demo_test'' ''_test_test''" by (simp add: HasSuffix_def)
  have v: "visitPackage excerpt ''/go'' ''/'' ''/go/src/x/demo''
          [''demo in x/demo'' \<mapsto> [''Foo'' \<mapsto> []]]
          \<lparr>pkg_Name = ''demo_test'', pkg_exports = False, pkg_decls = []\<rparr> [] =
        Some (the (visitPackage excerpt ''/go'' ''/'' ''/go/src/x/demo''
          [''demo in x/demo'' \<mapsto> [''Foo'' \<mapsto> []]]
          \<lparr>pkg_Name = ''demo_test'', pkg_exports = False, pkg_decls = []\<rparr> []))"
    by (simp add: visitPackage_def)
  note c = C8_test_variant_folded [of "''demo''" "''demo_test''" excerpt "''/go''" "''/''"
      "''/go/src/x/demo''" "[''demo in x/demo'' \<mapsto> [''Foo'' \<mapsto> []]]"
      "\<lparr>pkg_Name = ''demo_test'', pkg_exports = False, pkg_decls = []\<rparr>" "[]"
      "the (visitPackage excerpt ''/go'' ''/'' ''/go/src/x/demo''
          [''demo in x/demo'' \<mapsto> [''Foo'' \<mapsto> []]]
          \<lparr>pkg_Name = ''demo_test'', pkg_exports = False, pkg_decls = []\<rparr> [])"]
  note d = C8_test_variant_folded [of "''demo''" "''demo''" excerpt "''/go''" "''/''"
      "''/go/src/x/demo''" Map.empty
      "\<lparr>pkg_Name = ''demo_test'', pkg_exports = False, pkg_decls = []\<rparr>" "[]" Map.empty]
  have g1: "groupName ''demo_test'' = ''demo''"
    using c [THEN conjunct1] by simp
  have g2: "groupName ''demo'' = ''demo''"
    using d [THEN conjunct2, THEN conjunct2, THEN conjunct1] h2 by blast
  have g3: "\<not> HasSuffix (groupName ''demo_test'') ''_test''"
    using c [THEN conjunct2, THEN conjunct2, THEN conjunct2, THEN conjunct1] h3 by blast
  have g4: "dom (the (visitPackage excerpt ''/go'' ''/'' ''/go/src/x/demo''
          [''demo in x/demo'' \<mapsto> [''Foo'' \<mapsto> []]]
          \<lparr>pkg_Name = ''demo_test'', pkg_exports = False, pkg_decls = []\<rparr> [])) =
     {''demo in x/demo''}"
    using c [THEN conjunct2, THEN conjunct2, THEN conjunct2, THEN conjunct2, rule_format, OF v] g1
    by (simp add: TrimPrefix_def HasPrefix_def)
  show ?thesis using g1 g2 g3 g4 by simp
qed

text \<open>
  The claim as stated fails for the package name \<open>demo_test_test\<close>: one suffix is
  removed and the collection gets a group named \<open>demo_test\<close>.
\<close>

theorem C8_counterexample:
  "HasSuffix ''demo_test_test'' ''_test'' \<and>
   groupName ''demo_test_test'' = ''demo_test'' \<and>
   HasSuffix (groupName ''demo_test_test'') ''_test'' \<and>
   visitPackage excerpt ''/go'' ''/'' ''/go/src/x/demo'' Map.empty
     \<lparr>pkg_Name = ''demo_test_test'', pkg_exports = False, pkg_decls = []\<rparr> [] =
     Some [''demo_test in x/demo'' \<mapsto> Map.empty]"
  by (simp add: groupName_def HasSuffix_def TrimSuffix_def visitPackage_def union_funcs_def
      group_def TrimPrefix_def HasPrefix_def)

end
